theory Spec2Isabelle
  imports Main "HOL-Library.Multiset"
begin

section \<open>The notes service: data model\<close>

text \<open>
  The two tables of \<^verbatim>\<open>database/init.sql\<close>. A row is a record, a table the list of
  its rows in insertion order. Timestamps are integers (ticks of the database clock); the
  driver is taken to hand a timestamp read from one row unchanged to the next statement.
  The columns that every statement of the service writes with a value are plain fields;
  \<^verbatim>\<open>original_updated_at\<close>, which the restore statement reads through
  \<^verbatim>\<open>COALESCE\<close>, is optional.
\<close>

type_synonym timestamp = int

record note_row =
  nid :: int
  user_id :: int
  title :: string
  content :: string
  created_at :: timestamp
  updated_at :: timestamp

record trashed_row =
  tid :: int
  note_id :: int
  t_user_id :: int
  t_title :: string
  t_content :: string
  trashed_at :: timestamp
  original_updated_at :: "timestamp option"

text \<open>
  The database: both tables and the last value handed out by the sequence behind each
  \<^verbatim>\<open>SERIAL\<close> column. A sequence is not transactional: a value taken inside a
  transaction that rolls back is not given back.
\<close>

record db =
  notes_table :: "note_row list"
  trashed_notes_table :: "trashed_row list"
  notes_id_seq :: int
  trashed_notes_id_seq :: int

definition init_db :: db where
  "init_db = \<lparr>notes_table = [], trashed_notes_table = [], notes_id_seq = 0, trashed_notes_id_seq = 0\<rparr>"

text \<open>\<^verbatim>\<open>SERIAL\<close> is a 32-bit signed column: past this value the insert raises.\<close>

definition int4_max :: int where
  "int4_max = 2147483647"

text \<open>
  Every statement sent to the database may throw (lost connection, a parameter the
  server refuses such as the \<^verbatim>\<open>NaN\<close> that \<^verbatim>\<open>parseInt\<close> gives for an id that is
  no number, a foreign key violation). Which statements of one request throw is given
  from outside, by name: \<^verbatim>\<open>CONNECT\<close> is \<^verbatim>\<open>pool.connect()\<close>, \<^verbatim>\<open>ROLLBACK\<close> the
  rollback of the not-found branch, \<^verbatim>\<open>ROLLBACK_catch\<close> the one of the \<^verbatim>\<open>catch\<close>
  block. A statement that throws has had no effect, and a \<^verbatim>\<open>COMMIT\<close> that throws has
  not committed.
\<close>

datatype query =
  CONNECT | BEGIN | SELECT | INSERT | DELETE | UPDATE | COMMIT | ROLLBACK | ROLLBACK_catch

type_synonym faults = "query \<Rightarrow> bool"

definition no_faults :: faults where
  "no_faults = (\<lambda>q. False)"

text \<open>
  The responses, by status: 201 and 200 with a row, 200 with a list, 204, 400, 404 and 500
  with the \<^verbatim>\<open>error\<close> string of the body (the \<^verbatim>\<open>details\<close> of a 500, the driver's
  message, are left out), and no response at all when the handler's promise rejects.
\<close>

datatype response =
  Created note_row
  | Ok_note note_row
  | Ok_notes "note_row list"
  | Ok_trashed "trashed_row list"
  | No_content
  | Bad_request
  | Not_found string
  | Server_error string
  | No_response

section \<open>Statements\<close>

text \<open>
  \<^verbatim>\<open>INSERT INTO notes (...) RETURNING *\<close>: the id is the next value of the sequence.
  The statement raises when the sequence is exhausted, and (primary key) when the id is
  already in the table; in the second case the sequence value is used up.
\<close>

definition note_values ::
  "int \<Rightarrow> timestamp \<Rightarrow> int \<Rightarrow> string \<Rightarrow> string \<Rightarrow> timestamp \<Rightarrow> note_row" where
  "note_values i now u t c upd =
     \<lparr>nid = i, user_id = u, title = t, content = c, created_at = now, updated_at = upd\<rparr>"

definition insert_note ::
  "timestamp \<Rightarrow> int \<Rightarrow> string \<Rightarrow> string \<Rightarrow> timestamp \<Rightarrow> db \<Rightarrow> db \<times> note_row option" where
  "insert_note now u t c upd d =
     (if int4_max \<le> notes_id_seq d then (d, None)
      else
        let i = notes_id_seq d + 1;
            n = note_values i now u t c upd
        in if i \<in> set (map nid (notes_table d)) then (d\<lparr>notes_id_seq := i\<rparr>, None)
           else (d\<lparr>notes_table := notes_table d @ [n], notes_id_seq := i\<rparr>, Some n))"

text \<open>
  \<^verbatim>\<open>INSERT INTO trashed_notes (note_id, user_id, title, content, trashed_at,
  original_updated_at) VALUES ($1, $2, $3, $4, NOW(), $5)\<close> with the fields of the note
  row read before.
\<close>

definition trashed_values :: "int \<Rightarrow> timestamp \<Rightarrow> note_row \<Rightarrow> trashed_row" where
  "trashed_values i now n =
     \<lparr>tid = i, note_id = nid n, t_user_id = user_id n, t_title = title n,
      t_content = content n, trashed_at = now, original_updated_at = Some (updated_at n)\<rparr>"

definition insert_trashed :: "timestamp \<Rightarrow> note_row \<Rightarrow> db \<Rightarrow> db \<times> trashed_row option" where
  "insert_trashed now n d =
     (if int4_max \<le> trashed_notes_id_seq d then (d, None)
      else
        let i = trashed_notes_id_seq d + 1;
            t = trashed_values i now n
        in if i \<in> set (map tid (trashed_notes_table d))
           then (d\<lparr>trashed_notes_id_seq := i\<rparr>, None)
           else (d\<lparr>trashed_notes_table := trashed_notes_table d @ [t],
                   trashed_notes_id_seq := i\<rparr>, Some t))"

text \<open>The \<^verbatim>\<open>WHERE id = $1 AND user_id = $2\<close> of every statement that names a row.\<close>

definition note_matches :: "int \<Rightarrow> int \<Rightarrow> note_row \<Rightarrow> bool" where
  "note_matches i u n = (nid n = i \<and> user_id n = u)"

definition trashed_matches :: "int \<Rightarrow> int \<Rightarrow> trashed_row \<Rightarrow> bool" where
  "trashed_matches i u t = (tid t = i \<and> t_user_id t = u)"

text \<open>\<^verbatim>\<open>COALESCE($4, NOW())\<close>.\<close>

definition coalesce :: "'a option \<Rightarrow> 'a \<Rightarrow> 'a" where
  "coalesce v dflt = (case v of Some x \<Rightarrow> x | None \<Rightarrow> dflt)"

text \<open>\<^verbatim>\<open>ORDER BY key DESC\<close>.\<close>

definition order_by_desc :: "('a \<Rightarrow> int) \<Rightarrow> 'a list \<Rightarrow> 'a list" where
  "order_by_desc key xs = sort_key (\<lambda>x. - key x) xs"

text \<open>
  What the \<^verbatim>\<open>catch\<close> block of a transactional handler does: \<^verbatim>\<open>ROLLBACK\<close>, then
  status 500. The tables go back to \<open>d0\<close>, the state at \<^verbatim>\<open>BEGIN\<close>; the sequences
  stay where the transaction \<open>w\<close> left them. When the \<^verbatim>\<open>ROLLBACK\<close> itself throws,
  the handler's promise rejects and no response is sent; the open transaction is never
  committed.
\<close>

definition rolled_back :: "db \<Rightarrow> db \<Rightarrow> db" where
  "rolled_back d0 w =
     d0\<lparr>notes_id_seq := notes_id_seq w, trashed_notes_id_seq := trashed_notes_id_seq w\<rparr>"

definition on_catch :: "faults \<Rightarrow> string \<Rightarrow> db \<Rightarrow> db \<Rightarrow> db \<times> response" where
  "on_catch F msg d0 w =
     (if F ROLLBACK_catch then (rolled_back d0 w, No_response)
      else (rolled_back d0 w, Server_error msg))"

section \<open>Request validation\<close>

text \<open>
  \<^verbatim>\<open>body('title').isLength({ min: 1 }).trim()\<close>: the chain runs in the order written,
  first the length check on the value as received, then the sanitizer, whose result
  replaces the field of the request body. A field is a string, or absent (\<open>None\<close>,
  which the validator reads as the empty string). White space is the ASCII part of what
  \<^verbatim>\<open>trim\<close> strips: space, tab, line feed, vertical tab, form feed, carriage return.
\<close>

definition is_space :: "char \<Rightarrow> bool" where
  "is_space c = (c \<in> set [CHR '' '', CHR 0x09, CHR 0x0A, CHR 0x0B, CHR 0x0C, CHR 0x0D])"

definition trim :: "string \<Rightarrow> string" where
  "trim s = rev (dropWhile is_space (rev (dropWhile is_space s)))"

definition isLength_min1 :: "string option \<Rightarrow> bool" where
  "isLength_min1 v = (case v of None \<Rightarrow> False | Some s \<Rightarrow> 1 \<le> length s)"

definition sanitized :: "string option \<Rightarrow> string" where
  "sanitized v = (case v of None \<Rightarrow> [] | Some s \<Rightarrow> trim s)"

definition validation_errors :: "string option \<Rightarrow> string option \<Rightarrow> bool" where
  "validation_errors t c = (\<not> (isLength_min1 t \<and> isLength_min1 c))"

section \<open>Handlers\<close>

text \<open>
  Each handler takes the faults of its request, the database time of the request
  (\<^verbatim>\<open>NOW()\<close>), the user id that \<^verbatim>\<open>authMiddleware\<close> took from the token, the
  integer that \<^verbatim>\<open>parseInt\<close> read from the path parameter and the body fields, and the
  database; it returns the database afterwards and the response. Requests are handled
  one at a time. The names are those of the routes: \<^verbatim>\<open>POST /notes\<close>,
  \<^verbatim>\<open>GET /notes\<close>, \<^verbatim>\<open>GET /trashed-notes\<close>, \<^verbatim>\<open>DELETE /notes/:id\<close> (trash),
  \<^verbatim>\<open>POST /trashed-notes/:id/restore\<close>, \<^verbatim>\<open>DELETE /trashed-notes/:id\<close> (erase) and
  \<^verbatim>\<open>PUT /notes/:id\<close> (update).
\<close>

definition post_notes ::
  "faults \<Rightarrow> timestamp \<Rightarrow> int \<Rightarrow> string option \<Rightarrow> string option \<Rightarrow> db \<Rightarrow> db \<times> response" where
  "post_notes F now userId t c d =
     (if validation_errors t c then (d, Bad_request)
      else if F INSERT then (d, Server_error ''Failed to create note'')
      else case insert_note now userId (sanitized t) (sanitized c) now d of
             (d', None) \<Rightarrow> (d', Server_error ''Failed to create note'')
           | (d', Some n) \<Rightarrow> (d', Created n))"

definition get_notes :: "faults \<Rightarrow> int \<Rightarrow> db \<Rightarrow> db \<times> response" where
  "get_notes F userId d =
     (if F SELECT then (d, Server_error ''Failed to fetch notes'')
      else (d, Ok_notes (order_by_desc updated_at [n \<leftarrow> notes_table d. user_id n = userId])))"

definition get_trashed_notes :: "faults \<Rightarrow> int \<Rightarrow> db \<Rightarrow> db \<times> response" where
  "get_trashed_notes F userId d =
     (if F SELECT then (d, Server_error ''Failed to fetch trashed notes'')
      else (d, Ok_trashed (order_by_desc trashed_at [t \<leftarrow> trashed_notes_table d. t_user_id t = userId])))"

definition delete_notes_id :: "faults \<Rightarrow> timestamp \<Rightarrow> int \<Rightarrow> int \<Rightarrow> db \<Rightarrow> db \<times> response" where
  "delete_notes_id F now userId noteId d =
     (let msg = ''Failed to move note to trash'' in
      if F CONNECT then (d, No_response)
      else if F BEGIN then on_catch F msg d d
      else if F SELECT then on_catch F msg d d
      else case filter (note_matches noteId userId) (notes_table d) of
        [] \<Rightarrow>
          if F ROLLBACK then on_catch F msg d d
          else (d, Not_found ''Note not found or not owned by user'')
      | n # _ \<Rightarrow>
          if F INSERT then on_catch F msg d d
          else (case insert_trashed now n d of
            (d1, None) \<Rightarrow> on_catch F msg d d1
          | (d1, Some _) \<Rightarrow>
              if F DELETE then on_catch F msg d d1
              else
                let d2 = d1\<lparr>notes_table :=
                           filter (\<lambda>m. \<not> note_matches noteId userId m) (notes_table d1)\<rparr>
                in if F COMMIT then on_catch F msg d d2 else (d2, No_content)))"

definition post_trashed_notes_id_restore ::
  "faults \<Rightarrow> timestamp \<Rightarrow> int \<Rightarrow> int \<Rightarrow> db \<Rightarrow> db \<times> response" where
  "post_trashed_notes_id_restore F now userId trashedNoteId d =
     (let msg = ''Failed to restore note'' in
      if F CONNECT then (d, No_response)
      else if F BEGIN then on_catch F msg d d
      else if F SELECT then on_catch F msg d d
      else case filter (trashed_matches trashedNoteId userId) (trashed_notes_table d) of
        [] \<Rightarrow>
          if F ROLLBACK then on_catch F msg d d
          else (d, Not_found ''Trashed note not found or not owned by user'')
      | t # _ \<Rightarrow>
          if F INSERT then on_catch F msg d d
          else (case insert_note now (t_user_id t) (t_title t) (t_content t)
                      (coalesce (original_updated_at t) now) d of
            (d1, None) \<Rightarrow> on_catch F msg d d1
          | (d1, Some restored) \<Rightarrow>
              if F DELETE then on_catch F msg d d1
              else
                let d2 = d1\<lparr>trashed_notes_table :=
                           filter (\<lambda>m. \<not> trashed_matches trashedNoteId userId m) (trashed_notes_table d1)\<rparr>
                in if F COMMIT then on_catch F msg d d2 else (d2, Ok_note restored)))"

definition delete_trashed_notes_id :: "faults \<Rightarrow> int \<Rightarrow> int \<Rightarrow> db \<Rightarrow> db \<times> response" where
  "delete_trashed_notes_id F userId trashedNoteId d =
     (if F DELETE then (d, Server_error ''Failed to permanently delete note'')
      else case filter (trashed_matches trashedNoteId userId) (trashed_notes_table d) of
        [] \<Rightarrow> (d, Not_found ''Trashed note not found or not owned by user'')
      | _ # _ \<Rightarrow>
          (d\<lparr>trashed_notes_table :=
               filter (\<lambda>m. \<not> trashed_matches trashedNoteId userId m) (trashed_notes_table d)\<rparr>,
           No_content))"

text \<open>
  \<^verbatim>\<open>UPDATE notes SET title, content, updated_at = NOW() WHERE ... RETURNING *\<close>; the
  trigger of \<^verbatim>\<open>init.sql\<close> sets \<^verbatim>\<open>updated_at\<close> to the same time.
\<close>

definition set_note :: "int \<Rightarrow> int \<Rightarrow> string \<Rightarrow> string \<Rightarrow> timestamp \<Rightarrow> note_row \<Rightarrow> note_row" where
  "set_note i u t c now n =
     (if note_matches i u n then n\<lparr>title := t, content := c, updated_at := now\<rparr> else n)"

definition put_notes_id ::
  "faults \<Rightarrow> timestamp \<Rightarrow> int \<Rightarrow> int \<Rightarrow> string option \<Rightarrow> string option \<Rightarrow> db \<Rightarrow> db \<times> response" where
  "put_notes_id F now userId noteId t c d =
     (if validation_errors t c then (d, Bad_request)
      else if F UPDATE then (d, Server_error ''Failed to update note'')
      else case filter (note_matches noteId userId) (notes_table d) of
        [] \<Rightarrow> (d, Not_found ''Note not found or not owned by user'')
      | n # _ \<Rightarrow>
          (d\<lparr>notes_table := map (set_note noteId userId (sanitized t) (sanitized c) now) (notes_table d)\<rparr>,
           Ok_note (set_note noteId userId (sanitized t) (sanitized c) now n)))"

section \<open>Runs of the service\<close>

datatype op =
  Create int "string option" "string option"
  | List_active int
  | List_trashed int
  | Trash int int
  | Restore int int
  | Erase_forever int int
  | Update int int "string option" "string option"

type_synonym event = "faults \<times> timestamp \<times> op"

fun step :: "event \<Rightarrow> db \<Rightarrow> db \<times> response" where
  "step (F, now, Create u t c) d = post_notes F now u t c d"
| "step (F, now, List_active u) d = get_notes F u d"
| "step (F, now, List_trashed u) d = get_trashed_notes F u d"
| "step (F, now, Trash u i) d = delete_notes_id F now u i d"
| "step (F, now, Restore u i) d = post_trashed_notes_id_restore F now u i d"
| "step (F, now, Erase_forever u i) d = delete_trashed_notes_id F u i d"
| "step (F, now, Update u i t c) d = put_notes_id F now u i t c d"

fun run :: "event list \<Rightarrow> db \<Rightarrow> db" where
  "run [] d = d"
| "run (e # es) d = run es (fst (step e d))"

text \<open>
  A database used in examples: user 1 has the active notes 1 and 3 and the trashed note
  that was note 4; user 2 has the active note 2 and the trashed note that was note 5.
\<close>

definition example_db :: db where
  "example_db =
     \<lparr>notes_table = [note_values 1 10 1 ''a'' ''x'' 10, note_values 2 20 2 ''b'' ''y'' 20,
                     note_values 3 30 1 ''c'' ''z'' 30],
      trashed_notes_table = [trashed_values 1 40 (note_values 4 15 1 ''d'' ''w'' 15),
                             trashed_values 2 50 (note_values 5 25 2 ''e'' ''v'' 25)],
      notes_id_seq = 5, trashed_notes_id_seq = 2\<rparr>"

section \<open>Invariants and effects\<close>

text \<open>
  What the primary keys and the sequences keep true of every database the service
  reaches from the empty one (\<open>ids_ok_init\<close>, \<open>ids_ok_run\<close> below): ids are unique
  in each table and not above the sequence that hands them out, and a trashed row links
  to a note id that was handed out, is no longer active, and is linked by no other
  trashed row.
\<close>

definition ids_ok :: "db \<Rightarrow> bool" where
  "ids_ok d =
     (distinct (map nid (notes_table d))
      \<and> distinct (map tid (trashed_notes_table d))
      \<and> distinct (map note_id (trashed_notes_table d))
      \<and> (\<forall>n \<in> set (notes_table d). nid n \<le> notes_id_seq d)
      \<and> (\<forall>t \<in> set (trashed_notes_table d).
            tid t \<le> trashed_notes_id_seq d \<and> note_id t \<le> notes_id_seq d
          \<and> note_id t \<notin> set (map nid (notes_table d))))"

text \<open>A request that does not go through leaves both tables as they were; the sequences may
  have advanced.\<close>

definition tables_kept :: "db \<Rightarrow> db \<Rightarrow> bool" where
  "tables_kept d d' =
     (notes_table d' = notes_table d \<and> trashed_notes_table d' = trashed_notes_table d
      \<and> notes_id_seq d \<le> notes_id_seq d' \<and> trashed_notes_id_seq d \<le> trashed_notes_id_seq d')"

text \<open>The database after a trash of note \<open>n\<close> that commits, and after a restore that
  commits with the new note \<open>n\<close>.\<close>

definition trashed_db :: "timestamp \<Rightarrow> int \<Rightarrow> int \<Rightarrow> note_row \<Rightarrow> db \<Rightarrow> db" where
  "trashed_db now u i n d =
     \<lparr>notes_table = filter (\<lambda>m. \<not> note_matches i u m) (notes_table d),
      trashed_notes_table = trashed_notes_table d
         @ [trashed_values (trashed_notes_id_seq d + 1) now n],
      notes_id_seq = notes_id_seq d,
      trashed_notes_id_seq = trashed_notes_id_seq d + 1\<rparr>"

definition restored_db :: "int \<Rightarrow> int \<Rightarrow> note_row \<Rightarrow> db \<Rightarrow> db" where
  "restored_db u i n d =
     \<lparr>notes_table = notes_table d @ [n],
      trashed_notes_table = filter (\<lambda>m. \<not> trashed_matches i u m) (trashed_notes_table d),
      notes_id_seq = notes_id_seq d + 1,
      trashed_notes_id_seq = trashed_notes_id_seq d\<rparr>"

text \<open>No timestamp in the database is later than \<open>T\<close>.\<close>

definition stamps_le :: "timestamp \<Rightarrow> db \<Rightarrow> bool" where
  "stamps_le T d =
     ((\<forall>n \<in> set (notes_table d). updated_at n \<le> T)
      \<and> (\<forall>t \<in> set (trashed_notes_table d).
            trashed_at t \<le> T
          \<and> (case original_updated_at t of None \<Rightarrow> True | Some x \<Rightarrow> x \<le> T)))"

text \<open>The responses with a status below 400.\<close>

definition is_success :: "response \<Rightarrow> bool" where
  "is_success r =
     (case r of Created _ \<Rightarrow> True | Ok_note _ \<Rightarrow> True | Ok_notes _ \<Rightarrow> True
      | Ok_trashed _ \<Rightarrow> True | No_content \<Rightarrow> True | _ \<Rightarrow> False)"



text \<open>
  A trashed id that is in no row and not above the sequence: no later insert can bring
  it back.
\<close>

definition gone :: "int \<Rightarrow> db \<Rightarrow> bool" where
  "gone i d = (i \<notin> set (map tid (trashed_notes_table d)) \<and> i \<le> trashed_notes_id_seq d)"

text \<open>The note ids that the responses of a run hand out: by create and by restore.\<close>

fun new_id :: "op \<Rightarrow> response \<Rightarrow> int list" where
  "new_id (Create u t c) (Created n) = [nid n]"
| "new_id (Restore u i) (Ok_note n) = [nid n]"
| "new_id _ _ = []"

fun assigned_ids :: "event list \<Rightarrow> db \<Rightarrow> int list" where
  "assigned_ids [] d = []"
| "assigned_ids (e # es) d =
     new_id (snd (snd e)) (snd (step e d)) @ assigned_ids es (fst (step e d))"

text \<open>
  Where a logical note is: in the active table under a note id, in the trash under a
  trashed id, or erased from the trash. \<open>follow\<close> moves the place along with one request
  and its outcome: a successful trash of the note leads to the trashed row that links
  back to it, a successful restore of that row to the note it returns, a successful erase
  out of the tables. \<open>Lost\<close> is the place of a note whose trash left no row behind.
\<close>

datatype place = Active int | Trashed int | Erased int | Lost






section \<open>The handlers, case by case\<close>

lemma insert_note_None:
  "insert_note now u t c upd d = (d', None) \<Longrightarrow>
     notes_table d' = notes_table d \<and> trashed_notes_table d' = trashed_notes_table d
   \<and> notes_id_seq d \<le> notes_id_seq d' \<and> trashed_notes_id_seq d' = trashed_notes_id_seq d"
  by (auto simp: insert_note_def Let_def split: if_splits)

lemma insert_note_Some:
  "insert_note now u t c upd d = (d', Some n) \<Longrightarrow>
     n = note_values (notes_id_seq d + 1) now u t c upd
   \<and> d' = d\<lparr>notes_table := notes_table d @ [n], notes_id_seq := notes_id_seq d + 1\<rparr>
   \<and> notes_id_seq d < int4_max \<and> notes_id_seq d + 1 \<notin> nid ` set (notes_table d)"
  by (auto simp: insert_note_def Let_def split: if_splits)

lemma insert_trashed_None:
  "insert_trashed now n d = (d', None) \<Longrightarrow>
     notes_table d' = notes_table d \<and> trashed_notes_table d' = trashed_notes_table d
   \<and> trashed_notes_id_seq d \<le> trashed_notes_id_seq d' \<and> notes_id_seq d' = notes_id_seq d"
  by (auto simp: insert_trashed_def Let_def split: if_splits)

lemma insert_trashed_Some:
  "insert_trashed now n d = (d', Some t) \<Longrightarrow>
     t = trashed_values (trashed_notes_id_seq d + 1) now n
   \<and> d' = d\<lparr>trashed_notes_table := trashed_notes_table d @ [t],
             trashed_notes_id_seq := trashed_notes_id_seq d + 1\<rparr>
   \<and> trashed_notes_id_seq d < int4_max
   \<and> trashed_notes_id_seq d + 1 \<notin> tid ` set (trashed_notes_table d)"
  by (auto simp: insert_trashed_def Let_def split: if_splits)

lemma on_catch_eq:
  "on_catch F msg d0 w = (d', r) \<Longrightarrow>
     d' = rolled_back d0 w \<and> (r = No_response \<or> r = Server_error msg)"
  by (auto simp: on_catch_def split: if_splits)

lemma rolled_back_same [simp]: "rolled_back d d = d"
  by (simp add: rolled_back_def)

lemma delete_notes_id_cases:
  assumes "delete_notes_id F now u i d = (d', r)"
  shows "(r \<in> {Not_found ''Note not found or not owned by user'',
               Server_error ''Failed to move note to trash'', No_response} \<and> tables_kept d d')
       \<or> (r = No_content \<and> (\<exists>n rest.
              filter (note_matches i u) (notes_table d) = n # rest
            \<and> trashed_notes_id_seq d < int4_max
            \<and> trashed_notes_id_seq d + 1 \<notin> tid ` set (trashed_notes_table d)
            \<and> d' = trashed_db now u i n d))"
  using assms
  unfolding delete_notes_id_def Let_def
  by (auto split: if_splits list.splits option.splits prod.splits
      dest!: on_catch_eq insert_trashed_None insert_trashed_Some
      simp: rolled_back_def tables_kept_def trashed_db_def)

lemma restore_cases:
  assumes "post_trashed_notes_id_restore F now u i d = (d', r)"
  shows "(r \<in> {Not_found ''Trashed note not found or not owned by user'',
               Server_error ''Failed to restore note'', No_response} \<and> tables_kept d d')
       \<or> (\<exists>t rest n.
              r = Ok_note n
            \<and> filter (trashed_matches i u) (trashed_notes_table d) = t # rest
            \<and> n = note_values (notes_id_seq d + 1) now (t_user_id t) (t_title t) (t_content t)
                    (coalesce (original_updated_at t) now)
            \<and> notes_id_seq d < int4_max
            \<and> notes_id_seq d + 1 \<notin> nid ` set (notes_table d)
            \<and> d' = restored_db u i n d)"
  using assms
  unfolding post_trashed_notes_id_restore_def Let_def
  by (auto split: if_splits list.splits option.splits prod.splits
      dest!: on_catch_eq insert_note_None insert_note_Some
      simp: rolled_back_def tables_kept_def restored_db_def)

lemma erase_cases:
  assumes "delete_trashed_notes_id F u i d = (d', r)"
  shows "(r \<in> {Not_found ''Trashed note not found or not owned by user'',
               Server_error ''Failed to permanently delete note''} \<and> d' = d)
       \<or> (r = No_content
            \<and> filter (trashed_matches i u) (trashed_notes_table d) \<noteq> []
            \<and> d' = d\<lparr>trashed_notes_table :=
                       filter (\<lambda>m. \<not> trashed_matches i u m) (trashed_notes_table d)\<rparr>)"
  using assms
  unfolding delete_trashed_notes_id_def
  by (auto split: if_splits list.splits)

lemma create_cases:
  assumes "post_notes F now u t c d = (d', r)"
  shows "(r \<in> {Bad_request, Server_error ''Failed to create note''} \<and> tables_kept d d')
       \<or> (\<exists>n. r = Created n \<and> \<not> validation_errors t c
            \<and> n = note_values (notes_id_seq d + 1) now u (sanitized t) (sanitized c) now
            \<and> notes_id_seq d < int4_max
            \<and> notes_id_seq d + 1 \<notin> nid ` set (notes_table d)
            \<and> d' = d\<lparr>notes_table := notes_table d @ [n], notes_id_seq := notes_id_seq d + 1\<rparr>)"
  using assms
  unfolding post_notes_def
  by (auto split: if_splits option.splits prod.splits
      dest!: insert_note_None insert_note_Some simp: tables_kept_def)

lemma update_cases:
  assumes "put_notes_id F now u i t c d = (d', r)"
  shows "(r \<in> {Bad_request, Not_found ''Note not found or not owned by user'',
               Server_error ''Failed to update note''} \<and> d' = d)
       \<or> (\<exists>n rest. r = Ok_note (set_note i u (sanitized t) (sanitized c) now n)
            \<and> filter (note_matches i u) (notes_table d) = n # rest
            \<and> d' = d\<lparr>notes_table :=
                       map (set_note i u (sanitized t) (sanitized c) now) (notes_table d)\<rparr>)"
  using assms
  unfolding put_notes_id_def
  by (auto split: if_splits list.splits)

lemma filter_hd_mem: "filter P xs = x # rest \<Longrightarrow> x \<in> set xs \<and> P x"
proof -
  assume "filter P xs = x # rest"
  then have "x \<in> set (filter P xs)" by simp
  then show ?thesis by simp
qed

lemma distinct_key_filter:
  "distinct (map f xs) \<Longrightarrow> x \<in> set xs \<Longrightarrow>
     filter (\<lambda>m. f m = f x \<and> P m) xs = (if P x then [x] else [])"
  by (induction xs) (auto simp: filter_empty_conv image_iff)



lemma select_absent_trashed:
  "k \<notin> tid ` set (trashed_notes_table d) \<Longrightarrow>
     filter (trashed_matches k u) (trashed_notes_table d) = []"
  by (auto simp: filter_empty_conv trashed_matches_def)


lemma restore_not_found:
  "filter (trashed_matches i u) (trashed_notes_table d) = [] \<Longrightarrow>
     post_trashed_notes_id_restore F now u i d =
       (d, if F CONNECT then No_response
           else if F BEGIN \<or> F SELECT \<or> F ROLLBACK
                then (if F ROLLBACK_catch then No_response
                      else Server_error ''Failed to restore note'')
                else Not_found ''Trashed note not found or not owned by user'')"
  by (simp add: post_trashed_notes_id_restore_def on_catch_def Let_def)

lemma erase_not_found:
  "filter (trashed_matches i u) (trashed_notes_table d) = [] \<Longrightarrow>
     delete_trashed_notes_id F u i d =
       (d, if F DELETE then Server_error ''Failed to permanently delete note''
           else Not_found ''Trashed note not found or not owned by user'')"
  by (simp add: delete_trashed_notes_id_def)


lemma delete_notes_id_found:
  assumes "filter (note_matches i u) (notes_table d) = n # rest"
    and "\<not> F CONNECT" "\<not> F BEGIN" "\<not> F SELECT"
    and "insert_trashed now n d = (d1, r)"
  shows "delete_notes_id F now u i d =
     (if F INSERT then on_catch F ''Failed to move note to trash'' d d
      else case r of
        None \<Rightarrow> on_catch F ''Failed to move note to trash'' d d1
      | Some _ \<Rightarrow>
          if F DELETE then on_catch F ''Failed to move note to trash'' d d1
          else if F COMMIT
            then on_catch F ''Failed to move note to trash'' d
              (d1\<lparr>notes_table := filter (\<lambda>m. \<not> note_matches i u m) (notes_table d1)\<rparr>)
            else (d1\<lparr>notes_table := filter (\<lambda>m. \<not> note_matches i u m) (notes_table d1)\<rparr>,
                  No_content))"
  unfolding delete_notes_id_def Let_def
  by (simp only: assms if_False list.case prod.case)

lemma restore_found:
  assumes "filter (trashed_matches i u) (trashed_notes_table d) = t # rest"
    and "\<not> F CONNECT" "\<not> F BEGIN" "\<not> F SELECT"
    and "insert_note now (t_user_id t) (t_title t) (t_content t)
           (coalesce (original_updated_at t) now) d = (d1, r)"
  shows "post_trashed_notes_id_restore F now u i d =
     (if F INSERT then on_catch F ''Failed to restore note'' d d
      else case r of
        None \<Rightarrow> on_catch F ''Failed to restore note'' d d1
      | Some restored \<Rightarrow>
          if F DELETE then on_catch F ''Failed to restore note'' d d1
          else if F COMMIT
            then on_catch F ''Failed to restore note'' d
              (d1\<lparr>trashed_notes_table :=
                    filter (\<lambda>m. \<not> trashed_matches i u m) (trashed_notes_table d1)\<rparr>)
            else (d1\<lparr>trashed_notes_table :=
                    filter (\<lambda>m. \<not> trashed_matches i u m) (trashed_notes_table d1)\<rparr>,
                  Ok_note restored))"
  unfolding post_trashed_notes_id_restore_def Let_def
  by (simp only: assms if_False list.case prod.case)

section \<open>Consistent ids\<close>

lemma nid_set_note [simp]: "nid (set_note i u t c now n) = nid n"
  by (simp add: set_note_def)

lemma map_nid_set_note [simp]: "map nid (map (set_note i u t c now) xs) = map nid xs"
  by (induction xs) simp_all

lemma ids_ok_tables_kept: "ids_ok d \<Longrightarrow> tables_kept d d' \<Longrightarrow> ids_ok d'"
  unfolding ids_ok_def tables_kept_def by fastforce

lemma ids_ok_trashed_db:
  assumes "ids_ok d" "filter (note_matches i u) (notes_table d) = n # rest"
  shows "ids_ok (trashed_db now u i n d)"
proof -
  from assms(2) have n: "n \<in> set (notes_table d)" "nid n = i" "user_id n = u"
    using filter_hd_mem [of "note_matches i u" "notes_table d" n rest]
    by (simp_all add: note_matches_def)
  from assms(1) have dn: "distinct (map nid (notes_table d))"
    by (simp add: ids_ok_def)
  have gone: "nid n \<notin> nid ` set (filter (\<lambda>m. \<not> note_matches i u m) (notes_table d))"
  proof
    assume "nid n \<in> nid ` set (filter (\<lambda>m. \<not> note_matches i u m) (notes_table d))"
    then obtain m where m: "m \<in> set (notes_table d)" "\<not> note_matches i u m" "nid m = nid n"
      by auto
    with dn n have "m = n"
      by (meson distinct_map inj_onD)
    with m n show False
      by (simp add: note_matches_def)
  qed
  from assms(1) n have fresh: "nid n \<notin> note_id ` set (trashed_notes_table d)"
    unfolding ids_ok_def by force
  from assms(1) n gone fresh show ?thesis
    unfolding ids_ok_def trashed_db_def
    by (auto simp: distinct_map_filter trashed_values_def)
qed

lemma ids_ok_restored_db:
  assumes "ids_ok d" "nid n = notes_id_seq d + 1"
  shows "ids_ok (restored_db u i n d)"
  using assms
  unfolding ids_ok_def restored_db_def
  by (auto simp: distinct_map_filter)

lemma ids_ok_created:
  assumes "ids_ok d" "nid n = notes_id_seq d + 1"
  shows "ids_ok (d\<lparr>notes_table := notes_table d @ [n], notes_id_seq := notes_id_seq d + 1\<rparr>)"
  using assms
  unfolding ids_ok_def
  by auto

lemma ids_ok_erased:
  assumes "ids_ok d"
  shows "ids_ok (d\<lparr>trashed_notes_table := filter P (trashed_notes_table d)\<rparr>)"
  using assms
  unfolding ids_ok_def
  by (auto simp: distinct_map_filter)

lemma ids_ok_updated:
  assumes "ids_ok d"
  shows "ids_ok (d\<lparr>notes_table := map (set_note i u t c now) (notes_table d)\<rparr>)"
  using assms
  unfolding ids_ok_def
  by (auto simp del: map_map)


lemma ids_ok_step: "ids_ok d \<Longrightarrow> ids_ok (fst (step e d))"
proof -
  assume ok: "ids_ok d"
  obtain F now o' where e: "e = (F, now, o')"
    by (cases e)
  obtain d' r where s: "step e d = (d', r)"
    by (cases "step e d")
  have "ids_ok d'"
  proof (cases o')
    case (Create u t c)
    with e s have "post_notes F now u t c d = (d', r)" by simp
    from create_cases [OF this] ok show ?thesis
      by (auto intro: ids_ok_tables_kept ids_ok_created simp: note_values_def)
  next
    case (List_active u)
    with e s ok show ?thesis by (auto simp: get_notes_def split: if_splits)
  next
    case (List_trashed u)
    with e s ok show ?thesis by (auto simp: get_trashed_notes_def split: if_splits)
  next
    case (Trash u i)
    with e s have "delete_notes_id F now u i d = (d', r)" by simp
    from delete_notes_id_cases [OF this] ok show ?thesis
      by (auto intro: ids_ok_tables_kept ids_ok_trashed_db)
  next
    case (Restore u i)
    with e s have "post_trashed_notes_id_restore F now u i d = (d', r)" by simp
    from restore_cases [OF this] ok show ?thesis
      by (auto intro: ids_ok_tables_kept ids_ok_restored_db simp: note_values_def)
  next
    case (Erase_forever u i)
    with e s have "delete_trashed_notes_id F u i d = (d', r)" by simp
    from erase_cases [OF this] ok show ?thesis
      by (auto intro: ids_ok_erased)
  next
    case (Update u i t c)
    with e s have "put_notes_id F now u i t c d = (d', r)" by simp
    from update_cases [OF this] ok show ?thesis
      by (auto intro: ids_ok_updated)
  qed
  with s show ?thesis by simp
qed

lemma ids_ok_run: "ids_ok d \<Longrightarrow> ids_ok (run evs d)"
  by (induction evs arbitrary: d) (simp_all add: ids_ok_step)

lemma ids_ok_fresh_nid: "ids_ok d \<Longrightarrow> notes_id_seq d + 1 \<notin> nid ` set (notes_table d)"
  unfolding ids_ok_def by force



lemma select_trashed:
  assumes "ids_ok d" "t \<in> set (trashed_notes_table d)"
  shows "filter (trashed_matches (tid t) u) (trashed_notes_table d)
           = (if t_user_id t = u then [t] else [])"
proof -
  from assms(1) have "distinct (map tid (trashed_notes_table d))"
    by (simp add: ids_ok_def)
  from distinct_key_filter [OF this assms(2), of "\<lambda>m. t_user_id m = u"]
  show ?thesis
    by (simp add: trashed_matches_def [abs_def])
qed


lemma insert_note_ok:
  assumes "ids_ok d" "notes_id_seq d < int4_max"
  shows "insert_note now u t c upd d =
           (d\<lparr>notes_table := notes_table d @ [note_values (notes_id_seq d + 1) now u t c upd],
               notes_id_seq := notes_id_seq d + 1\<rparr>,
            Some (note_values (notes_id_seq d + 1) now u t c upd))"
  using assms ids_ok_fresh_nid [OF assms(1)]
  by (simp add: insert_note_def Let_def)


lemma restore_succeeds:
  assumes "ids_ok d" "t \<in> set (trashed_notes_table d)" "notes_id_seq d < int4_max"
  shows "post_trashed_notes_id_restore no_faults now (t_user_id t) (tid t) d
           = (restored_db (t_user_id t) (tid t)
                (note_values (notes_id_seq d + 1) now (t_user_id t) (t_title t) (t_content t)
                   (coalesce (original_updated_at t) now)) d,
              Ok_note (note_values (notes_id_seq d + 1) now (t_user_id t) (t_title t)
                   (t_content t) (coalesce (original_updated_at t) now)))"
proof -
  have sel: "filter (trashed_matches (tid t) (t_user_id t)) (trashed_notes_table d) = t # []"
    using assms by (simp add: select_trashed)
  have nf: "\<not> no_faults CONNECT" "\<not> no_faults BEGIN" "\<not> no_faults SELECT"
    by (simp_all add: no_faults_def)
  show ?thesis
    unfolding restore_found [OF sel nf insert_note_ok [OF assms(1,3)]]
    by (simp add: no_faults_def restored_db_def)
qed

lemma create_succeeds:
  assumes "ids_ok d" "\<not> validation_errors t c" "notes_id_seq d < int4_max"
  shows "post_notes no_faults now u t c d
           = (d\<lparr>notes_table := notes_table d
                    @ [note_values (notes_id_seq d + 1) now u (sanitized t) (sanitized c) now],
                notes_id_seq := notes_id_seq d + 1\<rparr>,
              Created (note_values (notes_id_seq d + 1) now u (sanitized t) (sanitized c) now))"
  using assms
  by (simp add: post_notes_def no_faults_def insert_note_ok)

lemma ids_ok_example: "ids_ok example_db"
  by (simp add: ids_ok_def example_db_def note_values_def trashed_values_def)

lemma create_example:
  "post_notes no_faults 60 3 (Some ''n'') (Some ''m'') example_db
     = (example_db\<lparr>notes_table := notes_table example_db @ [note_values 6 60 3 ''n'' ''m'' 60],
                     notes_id_seq := 6\<rparr>,
        Created (note_values 6 60 3 ''n'' ''m'' 60))"
proof -
  have v: "\<not> validation_errors (Some ''n'') (Some ''m'')"
    by (simp add: validation_errors_def isLength_min1_def)
  have s: "notes_id_seq example_db < int4_max" "notes_id_seq example_db = 5"
    by (simp_all add: example_db_def int4_max_def)
  have t: "sanitized (Some ''n'') = ''n''" "sanitized (Some ''m'') = ''m''"
    by (simp_all add: sanitized_def trim_def is_space_def)
  show ?thesis
    using create_succeeds [OF ids_ok_example v s(1), of 60 3]
    by (simp add: s(2) t)
qed


section \<open>Listing\<close>

lemma sorted_order_by_desc:
  "sorted_wrt (\<lambda>a b. key b \<le> key a) (order_by_desc key xs)"
proof -
  have "sorted (map (\<lambda>x. - key x) (sort_key (\<lambda>x. - key x) xs))"
    by (rule sorted_sort_key)
  then show ?thesis
    by (simp add: order_by_desc_def sorted_map)
qed

lemma mset_order_by_desc: "mset (order_by_desc key xs) = mset xs"
  by (simp add: order_by_desc_def)

text \<open>
  C10. When the \<^verbatim>\<open>SELECT\<close> does not throw, \<^verbatim>\<open>GET /notes\<close> answers with exactly
  the caller's active notes, in descending order of \<^verbatim>\<open>updated_at\<close>, and
  \<^verbatim>\<open>GET /trashed-notes\<close> with exactly the caller's trashed notes, in descending
  order of \<^verbatim>\<open>trashed_at\<close>; neither changes the database. The ordering is done by
  the handler's own query on every call.
\<close>

theorem lists_are_ordered:
  assumes "\<not> F SELECT"
  shows "\<exists>rows trows.
           get_notes F u d = (d, Ok_notes rows)
         \<and> sorted_wrt (\<lambda>a b. updated_at b \<le> updated_at a) rows
         \<and> mset rows = mset [n \<leftarrow> notes_table d. user_id n = u]
         \<and> get_trashed_notes F u d = (d, Ok_trashed trows)
         \<and> sorted_wrt (\<lambda>a b. trashed_at b \<le> trashed_at a) trows
         \<and> mset trows = mset [t \<leftarrow> trashed_notes_table d. t_user_id t = u]"
  using assms
  by (simp add: get_notes_def get_trashed_notes_def sorted_order_by_desc mset_order_by_desc)

theorem lists_are_ordered_witness:
  "\<not> no_faults SELECT \<and>
   (\<exists>rows trows.
      get_notes no_faults 1 example_db = (example_db, Ok_notes rows)
      \<and> sorted_wrt (\<lambda>a b. updated_at b \<le> updated_at a) rows
      \<and> mset rows = mset [note_values 1 10 1 ''a'' ''x'' 10, note_values 3 30 1 ''c'' ''z'' 30]
      \<and> get_trashed_notes no_faults 1 example_db = (example_db, Ok_trashed trows)
      \<and> sorted_wrt (\<lambda>a b. trashed_at b \<le> trashed_at a) trows
      \<and> mset trows = mset [trashed_values 1 40 (note_values 4 15 1 ''d'' ''w'' 15)])"
proof -
  have h: "\<not> no_faults SELECT"
    by (simp add: no_faults_def)
  have a: "[n \<leftarrow> notes_table example_db. user_id n = 1]
             = [note_values 1 10 1 ''a'' ''x'' 10, note_values 3 30 1 ''c'' ''z'' 30]"
    by (simp add: example_db_def note_values_def)
  have t: "[t \<leftarrow> trashed_notes_table example_db. t_user_id t = 1]
             = [trashed_values 1 40 (note_values 4 15 1 ''d'' ''w'' 15)]"
    by (simp add: example_db_def note_values_def trashed_values_def)
  show ?thesis
    using h lists_are_ordered [of no_faults 1 example_db]
    by (simp only: a t) simp
qed

section \<open>Validation\<close>

text \<open>
  C7. Create and update are to refuse a title or content that is empty after trimming.
  The handlers check the length of the field as received and trim afterwards: a field of
  white space only passes the check and is stored as the empty string, by
  \<^verbatim>\<open>POST /notes\<close> as well as by \<^verbatim>\<open>PUT /notes/:id\<close>.
\<close>

theorem blank_fields_are_stored:
  "snd (post_notes no_faults 7 1 (Some '' '') (Some ''x'') init_db)
     = Created \<lparr>nid = 1, user_id = 1, title = [], content = ''x'',
                created_at = 7, updated_at = 7\<rparr>
   \<and> snd (put_notes_id no_faults 9 1 1 (Some ''t'') (Some [CHR 0x09, CHR '' ''])
           (fst (post_notes no_faults 7 1 (Some '' '') (Some ''x'') init_db)))
     = Ok_note \<lparr>nid = 1, user_id = 1, title = ''t'', content = [],
                created_at = 7, updated_at = 9\<rparr>"
  by (simp add: post_notes_def put_notes_id_def validation_errors_def isLength_min1_def
      no_faults_def insert_note_def note_values_def init_db_def int4_max_def sanitized_def
      trim_def is_space_def set_note_def note_matches_def Let_def)

section \<open>Ownership\<close>



section \<open>Atomicity of the trash transition\<close>

text \<open>
  C2. When the note has been read and one of the later statements of the trash
  transaction (the insert into \<^verbatim>\<open>trashed_notes\<close>, the delete from \<^verbatim>\<open>notes\<close>, the
  commit) throws, both tables are afterwards what they were before the request: the note
  is still active, no trashed row has appeared, and the response is status 500 (or none,
  when the rollback throws as well), never a success.
\<close>

theorem trash_is_atomic:
  assumes "filter (note_matches i u) (notes_table d) = n # rest"
    and "\<not> F CONNECT" "\<not> F BEGIN" "\<not> F SELECT"
    and "F INSERT \<or> F DELETE \<or> F COMMIT"
  shows "\<exists>d'. delete_notes_id F now u i d
                = (d', if F ROLLBACK_catch then No_response
                       else Server_error ''Failed to move note to trash'')
             \<and> notes_table d' = notes_table d
             \<and> trashed_notes_table d' = trashed_notes_table d
             \<and> n \<in> set (notes_table d')"
proof -
  have n: "n \<in> set (notes_table d)"
    using filter_hd_mem [OF assms(1)] by simp
  obtain d1 r where ins: "insert_trashed now n d = (d1, r)"
    by (cases "insert_trashed now n d")
  note eq = delete_notes_id_found [OF assms(1-4) ins]
  have tabs: "notes_table (rolled_back d w) = notes_table d"
    "trashed_notes_table (rolled_back d w) = trashed_notes_table d" for w
    by (simp_all add: rolled_back_def)
  show ?thesis
  proof (cases "F INSERT")
    case True
    then show ?thesis
      unfolding eq by (simp add: on_catch_def tabs n)
  next
    case no_ins: False
    show ?thesis
    proof (cases r)
      case None
      with no_ins show ?thesis
        unfolding eq by (simp add: on_catch_def tabs n)
    next
      case (Some t)
      show ?thesis
      proof (cases "F DELETE")
        case True
        with Some no_ins show ?thesis
          unfolding eq by (simp add: on_catch_def tabs n)
      next
        case False
        with assms(5) no_ins have "F COMMIT" by simp
        with False Some no_ins show ?thesis
          unfolding eq by (simp add: on_catch_def tabs n)
      qed
    qed
  qed
qed

theorem trash_is_atomic_witness:
  "filter (note_matches 1 1) (notes_table example_db) = [note_values 1 10 1 ''a'' ''x'' 10]
   \<and> (\<exists>d'. delete_notes_id (\<lambda>q. q = DELETE) 99 1 1 example_db
               = (d', Server_error ''Failed to move note to trash'')
          \<and> notes_table d' = notes_table example_db
          \<and> trashed_notes_table d' = trashed_notes_table example_db
          \<and> note_values 1 10 1 ''a'' ''x'' 10 \<in> set (notes_table d'))"
proof -
  have f: "filter (note_matches 1 1) (notes_table example_db) = [note_values 1 10 1 ''a'' ''x'' 10]"
    by (simp add: example_db_def note_values_def note_matches_def)
  from trash_is_atomic [OF f, of "\<lambda>q. q = DELETE" 99] f
  show ?thesis
    by simp
qed

section \<open>Timestamps across the trash and restore transitions\<close>



lemma stamps_le_init: "stamps_le T init_db"
  by (simp add: stamps_le_def init_db_def)















section \<open>The round trip\<close>



section \<open>Sequences and ids over a run\<close>

lemma seq_mono_step:
  "notes_id_seq d \<le> notes_id_seq (fst (step e d))
   \<and> trashed_notes_id_seq d \<le> trashed_notes_id_seq (fst (step e d))"
proof -
  obtain F now a where e: "e = (F, now, a)"
    by (cases e)
  obtain d' r where s: "step e d = (d', r)"
    by (cases "step e d")
  have "notes_id_seq d \<le> notes_id_seq d' \<and> trashed_notes_id_seq d \<le> trashed_notes_id_seq d'"
  proof (cases a)
    case (Create u t c)
    with e s have "post_notes F now u t c d = (d', r)" by simp
    from create_cases [OF this] show ?thesis
      by (auto simp: tables_kept_def)
  next
    case (List_active u)
    with e s show ?thesis by (auto simp: get_notes_def split: if_splits)
  next
    case (List_trashed u)
    with e s show ?thesis by (auto simp: get_trashed_notes_def split: if_splits)
  next
    case (Trash u i)
    with e s have "delete_notes_id F now u i d = (d', r)" by simp
    from delete_notes_id_cases [OF this] show ?thesis
      by (auto simp: tables_kept_def trashed_db_def)
  next
    case (Restore u i)
    with e s have "post_trashed_notes_id_restore F now u i d = (d', r)" by simp
    from restore_cases [OF this] show ?thesis
      by (auto simp: tables_kept_def restored_db_def)
  next
    case (Erase_forever u i)
    with e s have "delete_trashed_notes_id F u i d = (d', r)" by simp
    from erase_cases [OF this] show ?thesis
      by auto
  next
    case (Update u i t c)
    with e s have "put_notes_id F now u i t c d = (d', r)" by simp
    from update_cases [OF this] show ?thesis
      by auto
  qed
  with s show ?thesis by simp
qed

lemma notes_id_seq_run: "notes_id_seq d \<le> notes_id_seq (run evs d)"
proof (induction evs arbitrary: d)
  case Nil
  show ?case by simp
next
  case (Cons e evs)
  have "notes_id_seq d \<le> notes_id_seq (fst (step e d))"
    by (simp add: seq_mono_step)
  also have "\<dots> \<le> notes_id_seq (run evs (fst (step e d)))"
    by (rule Cons.IH)
  finally show ?case by simp
qed

lemma new_id_le_seq:
  "k \<in> set (new_id (snd (snd e)) (snd (step e d))) \<Longrightarrow> k \<le> notes_id_seq (fst (step e d))"
proof -
  assume k: "k \<in> set (new_id (snd (snd e)) (snd (step e d)))"
  obtain F now a where e: "e = (F, now, a)"
    by (cases e)
  obtain d' r where s: "step e d = (d', r)"
    by (cases "step e d")
  have "k \<le> notes_id_seq d'"
  proof (cases a)
    case (Create u t c)
    with e s have "post_notes F now u t c d = (d', r)" by simp
    from create_cases [OF this] k e s Create show ?thesis
      by (auto simp: note_values_def)
  next
    case (Restore u i)
    with e s have "post_trashed_notes_id_restore F now u i d = (d', r)" by simp
    from restore_cases [OF this] k e s Restore show ?thesis
      by (auto simp: note_values_def restored_db_def)
  qed (insert k e s, auto)
  with s show ?thesis by simp
qed

lemma assigned_ids_le_seq:
  "k \<in> set (assigned_ids evs d) \<Longrightarrow> k \<le> notes_id_seq (run evs d)"
proof (induction evs arbitrary: d)
  case Nil
  then show ?case by simp
next
  case (Cons e evs)
  from Cons.prems consider
    (now) "k \<in> set (new_id (snd (snd e)) (snd (step e d)))"
    | (later) "k \<in> set (assigned_ids evs (fst (step e d)))"
    by auto
  then show ?case
  proof cases
    case now
    then have "k \<le> notes_id_seq (fst (step e d))"
      by (rule new_id_le_seq)
    also have "\<dots> \<le> notes_id_seq (run evs (fst (step e d)))"
      by (rule notes_id_seq_run)
    finally show ?thesis by simp
  next
    case later
    then show ?thesis
      using Cons.IH by simp
  qed
qed

text \<open>
  C9. Start from a database with consistent ids and let any requests run. If a restore
  then answers 200 with a note \<open>n\<close>, the id of \<open>n\<close> is the next value of the sequence:
  it is none of the ids handed out by a create or a restore of the run, none of the ids
  of the active notes, none of the original note ids kept in the trashed rows (that of
  the restored row among them), before the run or after it; and \<open>n\<close> is active. The
  sequence never goes back, so no id is handed out twice.
\<close>

theorem restore_id_is_fresh:
  assumes "ids_ok d"
    and "post_trashed_notes_id_restore F now u i (run evs d) = (d', Ok_note n)"
  shows "nid n = notes_id_seq (run evs d) + 1
       \<and> notes_id_seq d' = nid n
       \<and> n \<in> set (notes_table d')
       \<and> nid n \<notin> set (assigned_ids evs d)
       \<and> nid n \<notin> set (map nid (notes_table (run evs d)))
       \<and> nid n \<notin> set (map note_id (trashed_notes_table (run evs d)))
       \<and> nid n \<notin> set (map nid (notes_table d))
       \<and> nid n \<notin> set (map note_id (trashed_notes_table d))"
proof -
  have ok: "ids_ok (run evs d)"
    using assms(1) by (rule ids_ok_run)
  from restore_cases [OF assms(2)]
  have n: "nid n = notes_id_seq (run evs d) + 1" and d': "d' = restored_db u i n (run evs d)"
    by (auto simp: note_values_def)
  have 1: "notes_id_seq d' = nid n" "n \<in> set (notes_table d')"
    by (simp_all add: d' n restored_db_def)
  have 2: "nid n \<notin> set (assigned_ids evs d)"
    using assigned_ids_le_seq [of "nid n" evs d] n by auto
  have 3: "nid n \<notin> set (map nid (notes_table (run evs d)))"
    "nid n \<notin> set (map note_id (trashed_notes_table (run evs d)))"
    using ok n unfolding ids_ok_def by force+
  have "notes_id_seq d < nid n"
    using notes_id_seq_run [of d evs] n by simp
  then have 4: "nid n \<notin> set (map nid (notes_table d))"
    "nid n \<notin> set (map note_id (trashed_notes_table d))"
    using assms(1) unfolding ids_ok_def by force+
  from n 1 2 3 4 show ?thesis
    by blast
qed

theorem restore_id_is_fresh_witness:
  "ids_ok example_db
   \<and> assigned_ids [(no_faults, 60, Create 3 (Some ''n'') (Some ''m''))] example_db = [6]
   \<and> (\<exists>d' n. post_trashed_notes_id_restore no_faults 70 1 1
                  (run [(no_faults, 60, Create 3 (Some ''n'') (Some ''m''))] example_db)
                  = (d', Ok_note n)
          \<and> nid n = 7
          \<and> notes_id_seq d' = nid n
          \<and> n \<in> set (notes_table d')
          \<and> nid n \<notin> set (assigned_ids [(no_faults, 60, Create 3 (Some ''n'') (Some ''m''))]
                                example_db)
          \<and> nid n \<notin> set (map nid (notes_table example_db))
          \<and> nid n \<notin> set (map note_id (trashed_notes_table example_db)))"
proof -
  let ?evs = "[(no_faults, 60, Create 3 (Some ''n'') (Some ''m''))]"
  let ?t = "trashed_values 1 40 (note_values 4 15 1 ''d'' ''w'' 15)"
  have r: "run ?evs example_db
             = example_db\<lparr>notes_table := notes_table example_db @ [note_values 6 60 3 ''n'' ''m'' 60],
                            notes_id_seq := 6\<rparr>"
    by (simp add: create_example)
  have a: "assigned_ids ?evs example_db = [6]"
    by (simp add: create_example note_values_def)
  have ok: "ids_ok (run ?evs example_db)"
    using ids_ok_example by (rule ids_ok_run)
  have t: "?t \<in> set (trashed_notes_table (run ?evs example_db))"
    unfolding r by (simp add: example_db_def)
  have s: "notes_id_seq (run ?evs example_db) < int4_max" "notes_id_seq (run ?evs example_db) = 6"
    unfolding r by (simp_all add: int4_max_def)
  have v: "t_user_id ?t = 1" "tid ?t = 1"
    by (simp_all add: trashed_values_def note_values_def)
  from restore_succeeds [OF ok t s(1), of 70]
  obtain d' n where res: "post_trashed_notes_id_restore no_faults 70 1 1 (run ?evs example_db)
                            = (d', Ok_note n)"
    unfolding v by blast
  from restore_id_is_fresh [OF ids_ok_example res] res a s(2) ids_ok_example
  show ?thesis
    by auto
qed

section \<open>After the permanent erase\<close>

lemma gone_step: "gone i d \<Longrightarrow> gone i (fst (step e d))"
proof -
  assume g: "gone i d"
  obtain F now a where e: "e = (F, now, a)"
    by (cases e)
  obtain d' r where s: "step e d = (d', r)"
    by (cases "step e d")
  have "gone i d'"
  proof (cases a)
    case (Create u t c)
    with e s have "post_notes F now u t c d = (d', r)" by simp
    from create_cases [OF this] g show ?thesis
      by (auto simp: tables_kept_def gone_def)
  next
    case (List_active u)
    with e s g show ?thesis by (auto simp: get_notes_def split: if_splits)
  next
    case (List_trashed u)
    with e s g show ?thesis by (auto simp: get_trashed_notes_def split: if_splits)
  next
    case (Trash u j)
    with e s have "delete_notes_id F now u j d = (d', r)" by simp
    from delete_notes_id_cases [OF this] g show ?thesis
      by (auto simp: tables_kept_def trashed_db_def gone_def trashed_values_def)
  next
    case (Restore u j)
    with e s have "post_trashed_notes_id_restore F now u j d = (d', r)" by simp
    from restore_cases [OF this] g show ?thesis
      by (auto simp: tables_kept_def restored_db_def gone_def)
  next
    case (Erase_forever u j)
    with e s have "delete_trashed_notes_id F u j d = (d', r)" by simp
    from erase_cases [OF this] g show ?thesis
      by (auto simp: gone_def)
  next
    case (Update u j t c)
    with e s have "put_notes_id F now u j t c d = (d', r)" by simp
    from update_cases [OF this] g show ?thesis
      by (auto simp: gone_def)
  qed
  with s show ?thesis by simp
qed

lemma gone_run: "gone i d \<Longrightarrow> gone i (run evs d)"
  by (induction evs arbitrary: d) (simp_all add: gone_step)

lemma gone_after_erase:
  assumes "ids_ok d" "delete_trashed_notes_id F u i d = (d1, No_content)"
  shows "gone i d1"
proof -
  from erase_cases [OF assms(2)]
  have ne: "filter (trashed_matches i u) (trashed_notes_table d) \<noteq> []"
    and d1: "d1 = d\<lparr>trashed_notes_table :=
                       filter (\<lambda>m. \<not> trashed_matches i u m) (trashed_notes_table d)\<rparr>"
    by auto
  from ne obtain t where t: "t \<in> set (trashed_notes_table d)" "tid t = i" "t_user_id t = u"
    by (auto simp: filter_empty_conv trashed_matches_def)
  from assms(1) have dt: "distinct (map tid (trashed_notes_table d))"
    and le: "tid t \<le> trashed_notes_id_seq d"
    using t(1) unfolding ids_ok_def by auto
  have "m \<in> set (trashed_notes_table d) \<Longrightarrow> tid m = i \<Longrightarrow> trashed_matches i u m" for m
  proof -
    assume "m \<in> set (trashed_notes_table d)" "tid m = i"
    with dt t have "m = t"
      by (metis distinct_map inj_onD)
    with t show ?thesis
      by (simp add: trashed_matches_def)
  qed
  then have "i \<notin> set (map tid (trashed_notes_table d1))"
    unfolding d1 by auto
  with le t(2) show ?thesis
    by (simp add: gone_def d1)
qed

lemma gone_select: "gone i d \<Longrightarrow> filter (trashed_matches i u) (trashed_notes_table d) = []"
  by (rule select_absent_trashed) (simp add: gone_def)

text \<open>
  C8. On a database with consistent ids, let an erase of the trashed id \<open>i\<close> answer 204,
  and let any requests follow. Then a restore and an erase of \<open>i\<close>, by any user, answer
  404 when no statement throws, and under any faults they leave the database as it is
  and do not answer a success: nothing leads out of the erased state.
\<close>

theorem erased_is_terminal:
  assumes "ids_ok d" "delete_trashed_notes_id F u i d = (d1, No_content)"
  shows "post_trashed_notes_id_restore no_faults now u' i (run evs d1)
           = (run evs d1, Not_found ''Trashed note not found or not owned by user'')
       \<and> delete_trashed_notes_id no_faults u' i (run evs d1)
           = (run evs d1, Not_found ''Trashed note not found or not owned by user'')
       \<and> fst (post_trashed_notes_id_restore F' now u' i (run evs d1)) = run evs d1
       \<and> fst (delete_trashed_notes_id F' u' i (run evs d1)) = run evs d1
       \<and> \<not> is_success (snd (post_trashed_notes_id_restore F' now u' i (run evs d1)))
       \<and> \<not> is_success (snd (delete_trashed_notes_id F' u' i (run evs d1)))"
proof -
  have "gone i (run evs d1)"
    using assms by (intro gone_run gone_after_erase)
  then have sel: "filter (trashed_matches i u') (trashed_notes_table (run evs d1)) = []"
    by (rule gone_select)
  note eqs = restore_not_found [OF sel] erase_not_found [OF sel]
  have 1: "post_trashed_notes_id_restore no_faults now u' i (run evs d1)
           = (run evs d1, Not_found ''Trashed note not found or not owned by user'')"
    "delete_trashed_notes_id no_faults u' i (run evs d1)
           = (run evs d1, Not_found ''Trashed note not found or not owned by user'')"
    unfolding eqs by (simp_all add: no_faults_def)
  have 2: "fst (post_trashed_notes_id_restore F' now u' i (run evs d1)) = run evs d1"
    "fst (delete_trashed_notes_id F' u' i (run evs d1)) = run evs d1"
    unfolding eqs by (rule fst_conv)+
  have 3: "\<not> is_success (snd (post_trashed_notes_id_restore F' now u' i (run evs d1)))"
    unfolding eqs by (simp add: is_success_def)
  have 4: "\<not> is_success (snd (delete_trashed_notes_id F' u' i (run evs d1)))"
    unfolding eqs by (simp add: is_success_def)
  from 1 2 3 4 show ?thesis
    by blast
qed

theorem erased_is_terminal_witness:
  "ids_ok example_db
   \<and> delete_trashed_notes_id no_faults 1 1 example_db
       = (example_db\<lparr>trashed_notes_table :=
                       [trashed_values 2 50 (note_values 5 25 2 ''e'' ''v'' 25)]\<rparr>, No_content)
   \<and> snd (post_trashed_notes_id_restore no_faults 70 1 1
         (run [(no_faults, 60, Trash 1 1)]
            (example_db\<lparr>trashed_notes_table :=
                       [trashed_values 2 50 (note_values 5 25 2 ''e'' ''v'' 25)]\<rparr>)))
       = Not_found ''Trashed note not found or not owned by user''
   \<and> snd (delete_trashed_notes_id no_faults 1 1
         (run [(no_faults, 60, Trash 1 1)]
            (example_db\<lparr>trashed_notes_table :=
                       [trashed_values 2 50 (note_values 5 25 2 ''e'' ''v'' 25)]\<rparr>)))
       = Not_found ''Trashed note not found or not owned by user''"
proof -
  have e: "delete_trashed_notes_id no_faults 1 1 example_db
       = (example_db\<lparr>trashed_notes_table :=
                       [trashed_values 2 50 (note_values 5 25 2 ''e'' ''v'' 25)]\<rparr>, No_content)"
    by (simp add: delete_trashed_notes_id_def no_faults_def example_db_def trashed_matches_def
        trashed_values_def note_values_def)
  from erased_is_terminal [OF ids_ok_example e, of 70 1 "[(no_faults, 60, Trash 1 1)]" no_faults]
    e ids_ok_example
  show ?thesis
    by simp
qed

section \<open>One row for each note\<close>













end
